theory Spec2Isabelle
  imports Complex_Main
begin

section \<open>Data model of \<open>rate_limiter.py\<close>\<close>

text \<open>
  Timestamps of \<open>time.time()\<close> are seconds and are modelled as exact reals. A
  \<open>datetime\<close> has microsecond resolution and is modelled as the integer number of
  microseconds on the (naive, local) time line; the \<open>days\<close> attribute of a
  \<open>timedelta\<close> is the floor of the difference divided by one day.
\<close>

type_synonym datetime = int

definition timedelta_days :: "int \<Rightarrow> int" where
  "timedelta_days delta = delta div 86400000000"

record RateLimitConfig =
  global_limit :: int
  chat_limit :: int
  group_limit :: int
  resolve_daily_limit :: int
  max_retries :: int
  max_flood_wait :: int
  max_concurrent :: int
  min_delay :: real
  max_delay :: real

definition default_config :: RateLimitConfig where
  "default_config = \<lparr> global_limit = 30, chat_limit = 1, group_limit = 20,
     resolve_daily_limit = 200, max_retries = 3, max_flood_wait = 300,
     max_concurrent = 5, min_delay = 1 / 10, max_delay = 1 / 2 \<rparr>"

record RateLimitStats =
  total_requests :: int
  successful_requests :: int
  rate_limited_requests :: int
  flood_errors :: int
  last_request_time :: "datetime option"
  last_flood_time :: "datetime option"
  resolve_requests_today :: int
  resolve_last_reset :: "datetime option"

definition init_stats :: RateLimitStats where
  "init_stats = \<lparr> total_requests = 0, successful_requests = 0,
     rate_limited_requests = 0, flood_errors = 0, last_request_time = None,
     last_flood_time = None, resolve_requests_today = 0, resolve_last_reset = None \<rparr>"

text \<open>Each recording method takes the reading of \<open>datetime.now()\<close> it makes, if any.\<close>

definition record_request :: "datetime \<Rightarrow> RateLimitStats \<Rightarrow> RateLimitStats" where
  "record_request dt st =
     st\<lparr>total_requests := total_requests st + 1, last_request_time := Some dt\<rparr>"

definition record_success :: "RateLimitStats \<Rightarrow> RateLimitStats" where
  "record_success st = st\<lparr>successful_requests := successful_requests st + 1\<rparr>"

definition record_rate_limited :: "RateLimitStats \<Rightarrow> RateLimitStats" where
  "record_rate_limited st = st\<lparr>rate_limited_requests := rate_limited_requests st + 1\<rparr>"

definition record_flood_error :: "datetime \<Rightarrow> RateLimitStats \<Rightarrow> RateLimitStats" where
  "record_flood_error dt st =
     st\<lparr>flood_errors := flood_errors st + 1, last_flood_time := Some dt\<rparr>"

definition reset_due :: "datetime \<Rightarrow> RateLimitStats \<Rightarrow> bool" where
  "reset_due dt st =
     (case resolve_last_reset st of
        None \<Rightarrow> True
      | Some r \<Rightarrow> timedelta_days (dt - r) \<ge> 1)"

definition record_resolve_request :: "datetime \<Rightarrow> RateLimitStats \<Rightarrow> RateLimitStats" where
  "record_resolve_request dt st =
     (let st1 = (if reset_due dt st
                 then st\<lparr>resolve_requests_today := 0, resolve_last_reset := Some dt\<rparr>
                 else st)
      in st1\<lparr>resolve_requests_today := resolve_requests_today st1 + 1\<rparr>)"



section \<open>Sliding windows\<close>

text \<open>
  A window is the deque of recorded timestamps, oldest first. The loop of
  \<open>_cleanup_old_requests\<close> pops from the left while the oldest entry is not newer
  than \<open>now - window_seconds\<close>; \<open>now\<close> is the clock reading that method takes itself.
\<close>

fun cleanup_old_requests :: "real \<Rightarrow> int \<Rightarrow> real list \<Rightarrow> real list" where
  "cleanup_old_requests now_c w [] = []"
| "cleanup_old_requests now_c w (t # q) =
     (if t \<le> now_c - real_of_int w then cleanup_old_requests now_c w q else t # q)"

text \<open>The spec's \<open>record(window, now)\<close>: the \<open>append\<close> that ends both wait methods.\<close>

definition record_window :: "real \<Rightarrow> real list \<Rightarrow> real list" where
  "record_window now q = q @ [now]"

section \<open>The limiter\<close>

text \<open>
  Every \<open>raise\<close> of the modelled code is a value of \<open>error\<close>. The wrapped call's
  throttle signal carries the number of seconds the server asks for.
\<close>

datatype error =
    IndexError
  | ZeroDivisionError
  | ValueError
  | RuntimeError
  | FloodWaitError int
  | OtherError string

text \<open>
  The limiter object. \<open>chat_queues\<close> is a \<open>defaultdict(deque)\<close>: a lookup of a chat
  that has no entry yet gives the empty deque. \<open>semaphore\<close> is the number of free
  slots of the \<open>asyncio.Semaphore\<close>. The two \<open>asyncio.Lock\<close>s are free whenever a
  call runs from start to end before the next one starts, the only executions modelled
  here, and have no field.
\<close>

record RateLimiter =
  config :: RateLimitConfig
  stats :: RateLimitStats
  global_queue :: "real list"
  chat_queues :: "string \<Rightarrow> real list"
  semaphore :: int

text \<open>\<open>RateLimiter.__init__\<close>; \<open>asyncio.Semaphore\<close> refuses a negative value.\<close>

definition new_RateLimiter :: "RateLimitConfig \<Rightarrow> error + RateLimiter" where
  "new_RateLimiter cfg =
     (if max_concurrent cfg < 0 then Inl ValueError
      else Inr \<lparr> config = cfg, stats = init_stats, global_queue = [],
                 chat_queues = (\<lambda>c. []), semaphore = max_concurrent cfg \<rparr>)"

text \<open>
  \<open>_wait_for_global_limit\<close>. \<open>now\<close> is the reading of \<open>time.time()\<close> at the start of
  the exclusive section, \<open>now_c\<close> the later reading that \<open>_cleanup_old_requests\<close>
  takes. The result is the time slept (\<open>0\<close> when the method does not sleep), or the
  \<open>IndexError\<close> of \<open>self.global_queue[0]\<close> on an empty deque.
\<close>

definition wait_for_global_limit ::
  "real \<Rightarrow> real \<Rightarrow> RateLimiter \<Rightarrow> (error + real) \<times> RateLimiter" where
  "wait_for_global_limit now now_c rl =
     (let q = cleanup_old_requests now_c 60 (global_queue rl);
          rl1 = rl\<lparr>global_queue := q\<rparr>
      in if int (length q) \<ge> global_limit (config rl1) then
           (case q of
              [] \<Rightarrow> (Inl IndexError, rl1)
            | t0 # _ \<Rightarrow>
                (let wait_time = 60 - (now - t0) in
                 if wait_time > 0
                 then (Inr wait_time,
                       rl1\<lparr>stats := record_rate_limited (stats rl1),
                           global_queue := record_window now q\<rparr>)
                 else (Inr 0, rl1\<lparr>global_queue := record_window now q\<rparr>)))
         else (Inr 0, rl1\<lparr>global_queue := record_window now q\<rparr>))"

text \<open>\<open>_wait_for_chat_limit\<close>, with the same two clock readings.\<close>

definition wait_for_chat_limit ::
  "string \<Rightarrow> bool \<Rightarrow> real \<Rightarrow> real \<Rightarrow> RateLimiter \<Rightarrow> (error + real) \<times> RateLimiter" where
  "wait_for_chat_limit chat_id is_group now now_c rl =
     (let window_seconds = (if is_group then 60 else 1);
          max_requests = (if is_group then group_limit (config rl) else chat_limit (config rl));
          q = cleanup_old_requests now_c window_seconds (chat_queues rl chat_id);
          rl1 = rl\<lparr>chat_queues := (chat_queues rl)(chat_id := q)\<rparr>
      in if int (length q) \<ge> max_requests then
           (case q of
              [] \<Rightarrow> (Inl IndexError, rl1)
            | t0 # _ \<Rightarrow>
                (let wait_time = real_of_int window_seconds - (now - t0) in
                 if wait_time > 0
                 then (Inr wait_time,
                       rl1\<lparr>stats := record_rate_limited (stats rl1),
                           chat_queues := (chat_queues rl1)(chat_id := record_window now q)\<rparr>)
                 else (Inr 0,
                       rl1\<lparr>chat_queues := (chat_queues rl1)(chat_id := record_window now q)\<rparr>)))
         else (Inr 0, rl1\<lparr>chat_queues := (chat_queues rl1)(chat_id := record_window now q)\<rparr>))"

text \<open>
  \<open>_add_human_delay\<close>: \<open>base\<close> is the value \<open>random.uniform\<close> returned; the result
  is the time slept.
\<close>

definition add_human_delay :: "real \<Rightarrow> int \<Rightarrow> error + real" where
  "add_human_delay base priority =
     (if priority = 0 then Inl ZeroDivisionError else Inr (base / real_of_int priority))"

text \<open>
  \<open>str.lower\<close> on the ASCII letters (no character outside ASCII lowers to a letter of
  \<open>resolve\<close> or of a method name below), and the substring test \<open>needle in s\<close>.
\<close>

definition lower_char :: "char \<Rightarrow> char" where
  "lower_char c =
     (let n = (of_char c :: nat) in if 65 \<le> n \<and> n \<le> 90 then char_of (n + 32) else c)"

definition lower :: "string \<Rightarrow> string" where
  "lower s = map lower_char s"

fun starts_with :: "string \<Rightarrow> string \<Rightarrow> bool" where
  "starts_with [] s = True"
| "starts_with (x # xs) [] = False"
| "starts_with (x # xs) (y # ys) = (x = y \<and> starts_with xs ys)"

fun str_contains :: "string \<Rightarrow> string \<Rightarrow> bool" where
  "str_contains needle [] = starts_with needle []"
| "str_contains needle (y # ys) = (starts_with needle (y # ys) \<or> str_contains needle ys)"

definition group_methods :: "string list" where
  "group_methods =
     [''get_chat_members'', ''get_chat_admins'', ''ban_chat_member'',
      ''unban_chat_member'', ''kick_chat_member'', ''promote_to_admin'',
      ''add_chat_member'', ''get_chat_online_count'']"

definition determine_chat_type :: "string option \<Rightarrow> string \<Rightarrow> bool" where
  "determine_chat_type chat_id method_name = (lower method_name \<in> set group_methods)"

definition check_resolve_limit :: "datetime \<Rightarrow> RateLimiter \<Rightarrow> bool \<times> RateLimiter" where
  "check_resolve_limit dt rl =
     (let st = stats rl;
          st1 = (if reset_due dt st
                 then st\<lparr>resolve_requests_today := 0, resolve_last_reset := Some dt\<rparr>
                 else st)
      in (resolve_requests_today st1 < resolve_daily_limit (config rl), rl\<lparr>stats := st1\<rparr>))"

text \<open>The readings of the clocks and of the random generator that one \<open>acquire\<close> makes.\<close>

record clock =
  dt_check :: datetime
  dt_resolve :: datetime
  dt_request :: datetime
  g_now :: real
  g_now_c :: real
  c_now :: real
  c_now_c :: real
  base_delay :: real

text \<open>
  The body of \<open>async with self.semaphore\<close> in \<open>acquire\<close>, up to \<open>yield True\<close>.
  \<open>if chat_id:\<close> is false for \<open>None\<close> and for the empty string.
\<close>

definition admit ::
  "string \<Rightarrow> string option \<Rightarrow> int \<Rightarrow> clock \<Rightarrow> RateLimiter \<Rightarrow> (error + unit) \<times> RateLimiter" where
  "admit method_name chat_id priority ck rl =
     (let rl1 = rl\<lparr>stats := record_request (dt_request ck) (stats rl)\<rparr> in
      case wait_for_global_limit (g_now ck) (g_now_c ck) rl1 of
        (Inl e, rl2) \<Rightarrow> (Inl e, rl2)
      | (Inr _, rl2) \<Rightarrow>
          (case (case chat_id of
                   None \<Rightarrow> (Inr 0, rl2)
                 | Some c \<Rightarrow>
                     if c = [] then (Inr 0, rl2)
                     else wait_for_chat_limit c (determine_chat_type chat_id method_name)
                            (c_now ck) (c_now_c ck) rl2) of
             (Inl e, rl3) \<Rightarrow> (Inl e, rl3)
           | (Inr _, rl3) \<Rightarrow>
               (case add_human_delay (base_delay ck) priority of
                  Inl e \<Rightarrow> (Inl e, rl3)
                | Inr _ \<Rightarrow> (Inr (), rl3))))"

text \<open>
  \<open>acquire\<close> up to its \<open>yield\<close>: the value yielded and the limiter as the caller's
  block finds it. \<open>None\<close>: no slot of the semaphore is free, and the caller stays
  suspended until another task releases one. After \<open>yield True\<close> the slot is held;
  an exception of the admission sequence leaves \<open>async with\<close> (the slot is released)
  and reaches \<open>except Exception\<close>, which yields \<open>False\<close>.
\<close>

definition acquire ::
  "string \<Rightarrow> string option \<Rightarrow> int \<Rightarrow> clock \<Rightarrow> RateLimiter \<Rightarrow> (bool \<times> RateLimiter) option" where
  "acquire method_name chat_id priority ck rl =
     (case (if str_contains ''resolve'' (lower method_name)
            then (case check_resolve_limit (dt_check ck) rl of
                    (ok, rl0) \<Rightarrow>
                      if \<not> ok then (False, rl0)
                      else (True, rl0\<lparr>stats := record_resolve_request (dt_resolve ck) (stats rl0)\<rparr>))
            else (True, rl)) of
        (False, rl1) \<Rightarrow> Some (False, rl1)
      | (True, rl1) \<Rightarrow>
          if semaphore rl1 \<le> 0 then None
          else (case admit method_name chat_id priority ck (rl1\<lparr>semaphore := semaphore rl1 - 1\<rparr>) of
                  (Inl e, rl2) \<Rightarrow> Some (False, rl2\<lparr>semaphore := semaphore rl2 + 1\<rparr>)
                | (Inr _, rl2) \<Rightarrow> Some (True, rl2)))"

text \<open>
  What \<open>acquire\<close> does after the caller's block: when \<open>True\<close> was yielded the slot
  is released and the \<open>finally\<close> clause records a success; otherwise nothing is left
  to do.
\<close>

definition acquire_exit :: "bool \<Rightarrow> RateLimiter \<Rightarrow> RateLimiter" where
  "acquire_exit acquired rl =
     (if acquired
      then rl\<lparr>semaphore := semaphore rl + 1, stats := record_success (stats rl)\<rparr>
      else rl)"

section \<open>The retry wrapper of \<open>tools.py\<close>\<close>

datatype 'a outcome = Returns 'a | Raises error

record retry_state =
  retries :: int
  invocations :: nat
  slept :: "int list"

text \<open>
  \<open>_execute_with_retry\<close>. \<open>func k\<close> is what the \<open>k\<close>-th invocation of the wrapped call
  does (counted from \<open>0\<close>), \<open>clk k\<close> the reading of \<open>datetime.now()\<close> if that invocation
  is throttled. \<open>slept\<close> lists the arguments of \<open>asyncio.sleep\<close> in order. The limiter
  is \<open>None\<close> when the decorator runs without one.
\<close>

function execute_with_retry_loop ::
  "(nat \<Rightarrow> 'a outcome) \<Rightarrow> (nat \<Rightarrow> datetime) \<Rightarrow> int \<Rightarrow> retry_state \<Rightarrow> RateLimiter option
     \<Rightarrow> 'a option outcome \<times> retry_state \<times> RateLimiter option" where
  "execute_with_retry_loop func clk mr rs rlo =
     (if retries rs \<le> mr then
        (case func (invocations rs) of
           Returns v \<Rightarrow> (Returns (Some v), rs\<lparr>invocations := Suc (invocations rs)\<rparr>, rlo)
         | Raises (FloodWaitError secs) \<Rightarrow>
             (if secs > 60
              then (Raises (FloodWaitError secs), rs\<lparr>invocations := Suc (invocations rs)\<rparr>,
                    map_option (\<lambda>rl. rl\<lparr>stats := record_flood_error (clk (invocations rs)) (stats rl)\<rparr>) rlo)
              else if retries rs + 1 > mr
              then (Raises (FloodWaitError secs),
                    rs\<lparr>invocations := Suc (invocations rs), retries := retries rs + 1\<rparr>,
                    map_option (\<lambda>rl. rl\<lparr>stats := record_flood_error (clk (invocations rs)) (stats rl)\<rparr>) rlo)
              else execute_with_retry_loop func clk mr
                     (rs\<lparr>invocations := Suc (invocations rs), retries := retries rs + 1,
                         slept := slept rs @ [secs]\<rparr>)
                     (map_option (\<lambda>rl. rl\<lparr>stats := record_flood_error (clk (invocations rs)) (stats rl)\<rparr>) rlo))
         | Raises e \<Rightarrow> (Raises e, rs\<lparr>invocations := Suc (invocations rs)\<rparr>, rlo))
      else (Returns None, rs, rlo))"
  by pat_completeness auto
termination
  by (relation "measure (\<lambda>(func, clk, mr, rs, rlo). nat (mr + 1 - retries rs))") auto

declare execute_with_retry_loop.simps [simp del]

definition execute_with_retry ::
  "(nat \<Rightarrow> 'a outcome) \<Rightarrow> (nat \<Rightarrow> datetime) \<Rightarrow> int \<Rightarrow> RateLimiter option
     \<Rightarrow> 'a option outcome \<times> retry_state \<times> RateLimiter option" where
  "execute_with_retry func clk mr rlo =
     execute_with_retry_loop func clk mr \<lparr>retries = 0, invocations = 0, slept = []\<rparr> rlo"

section \<open>The decorator \<open>handle_flood_wait\<close>\<close>




definition resolve_methods :: "string list" where
  "resolve_methods =
     [''resolve_username'', ''search_global'', ''search_chats'', ''search_users'',
      ''get_entity_info'', ''resolve_phone'', ''check_username'']"




section \<open>Runs\<close>

text \<open>
  A run is a sequence of calls, each finished before the next starts. \<open>run_global\<close>
  and \<open>run_chat\<close> call one wait method with the given pairs of clock readings and
  collect what each call returned; \<open>run_acquires\<close> admits a sequence of calls whose
  blocks end normally; \<open>run_sessions\<close> runs the decorated tool repeatedly.
\<close>

fun run_global :: "(real \<times> real) list \<Rightarrow> RateLimiter \<Rightarrow> (error + real) list \<times> RateLimiter" where
  "run_global [] rl = ([], rl)"
| "run_global ((now, now_c) # cs) rl =
     (case wait_for_global_limit now now_c rl of
        (r, rl1) \<Rightarrow> (case run_global cs rl1 of (rs, rl2) \<Rightarrow> (r # rs, rl2)))"

fun run_chat ::
  "string \<Rightarrow> bool \<Rightarrow> (real \<times> real) list \<Rightarrow> RateLimiter \<Rightarrow> (error + real) list \<times> RateLimiter" where
  "run_chat chat_id is_group [] rl = ([], rl)"
| "run_chat chat_id is_group ((now, now_c) # cs) rl =
     (case wait_for_chat_limit chat_id is_group now now_c rl of
        (r, rl1) \<Rightarrow> (case run_chat chat_id is_group cs rl1 of (rs, rl2) \<Rightarrow> (r # rs, rl2)))"

record call =
  c_method :: string
  c_chat :: "string option"
  c_priority :: int
  c_clock :: clock

fun run_acquires :: "call list \<Rightarrow> RateLimiter \<Rightarrow> RateLimiter option" where
  "run_acquires [] rl = Some rl"
| "run_acquires (x # xs) rl =
     (case acquire (c_method x) (c_chat x) (c_priority x) (c_clock x) rl of
        None \<Rightarrow> None
      | Some (granted, rl1) \<Rightarrow> run_acquires xs (acquire_exit granted rl1))"

text \<open>
  The clock does not run backwards: every reading of \<open>time.time()\<close> that is recorded
  is at least the one recorded before it.
\<close>

fun clocks_monotone :: "real \<Rightarrow> call list \<Rightarrow> bool" where
  "clocks_monotone T [] = True"
| "clocks_monotone T (x # xs) =
     (T \<le> g_now (c_clock x) \<and> g_now (c_clock x) \<le> c_now (c_clock x) \<and>
      clocks_monotone (c_now (c_clock x)) xs)"




text \<open>
  The invariant of the window queues used below: every queue is in non-decreasing
  order, and no recorded timestamp is later than the clock reading \<open>T\<close>.
\<close>

definition queues_ordered :: "real \<Rightarrow> RateLimiter \<Rightarrow> bool" where
  "queues_ordered T rl =
     (sorted (global_queue rl) \<and> (\<forall>t \<in> set (global_queue rl). t \<le> T) \<and>
      (\<forall>c. sorted (chat_queues rl c) \<and> (\<forall>t \<in> set (chat_queues rl c). t \<le> T)))"


section \<open>Properties of the stats tracker and of eviction\<close>

lemma cleanup_suffix: "\<exists>pre. q = pre @ cleanup_old_requests now_c w q"
proof (induction q)
  case Nil
  show ?case by simp
next
  case (Cons t q)
  then obtain pre where pre: "q = pre @ cleanup_old_requests now_c w q" by blast
  show ?case
  proof (cases "t \<le> now_c - real_of_int w")
    case True
    have "t # q = (t # pre) @ cleanup_old_requests now_c w q" using pre by simp
    with True show ?thesis by (metis cleanup_old_requests.simps(2))
  next
    case False
    then have "t # q = [] @ cleanup_old_requests now_c w (t # q)" by simp
    then show ?thesis by blast
  qed
qed

lemma cleanup_dropWhile:
  "cleanup_old_requests now_c w q = dropWhile (\<lambda>t. t \<le> now_c - real_of_int w) q"
  by (induction q) auto

lemma cleanup_removed_old:
  assumes "q = pre @ cleanup_old_requests now_c w q" and "t \<in> set pre"
  shows "t \<le> now_c - real_of_int w"
proof -
  let ?P = "\<lambda>t. t \<le> now_c - real_of_int w"
  have "pre @ dropWhile ?P q = q"
    using assms(1) by (simp add: cleanup_dropWhile)
  also have "q = takeWhile ?P q @ dropWhile ?P q" by simp
  finally have "pre = takeWhile ?P q" by (simp only: append_same_eq)
  with assms(2) show ?thesis by (auto dest: set_takeWhileD)
qed

lemma cleanup_head_fresh:
  "cleanup_old_requests now_c w q = t # r \<Longrightarrow> now_c - t < real_of_int w"
  by (induction q) (auto split: if_splits)

lemma cleanup_sorted: "sorted q \<Longrightarrow> sorted (cleanup_old_requests now_c w q)"
  by (simp add: cleanup_dropWhile sorted_dropWhile)

lemma cleanup_subset: "set (cleanup_old_requests now_c w q) \<subseteq> set q"
  by (simp add: cleanup_dropWhile set_dropWhileD subsetI)

lemma cleanup_all_fresh:
  assumes "sorted q" and "t \<in> set (cleanup_old_requests now_c w q)"
  shows "now_c - t < real_of_int w"
proof (cases "cleanup_old_requests now_c w q")
  case Nil
  with assms(2) show ?thesis by simp
next
  case (Cons h r)
  have "sorted (h # r)" using cleanup_sorted[OF assms(1), of now_c w] Cons by simp
  with assms(2) Cons have "h \<le> t" by auto
  moreover have "now_c - h < real_of_int w" using cleanup_head_fresh[OF Cons] .
  ultimately show ?thesis by linarith
qed

lemma foldl_record_window: "foldl (\<lambda>q t. record_window t q) q0 ts = q0 @ ts"
  by (induction ts arbitrary: q0) (simp_all add: record_window_def)

section \<open>Eviction (C4)\<close>

text \<open>
  C4. After any sequence of \<open>record\<close> calls whose timestamps are taken in
  non-decreasing order (the order in which the contract says entries are inserted),
  followed by an eviction at clock reading \<open>now_c\<close> with window \<open>w\<close>, every
  timestamp \<open>t\<close> that remains satisfies \<open>now_c - t < w\<close>, and what was removed is a
  leading part of the sequence, each of its entries being at least \<open>w\<close> old.
\<close>

theorem evict_expired_fresh_and_prefix:
  assumes "sorted ts"
  shows "(\<forall>t \<in> set (cleanup_old_requests now_c w (foldl (\<lambda>q t. record_window t q) [] ts)).
            now_c - t < real_of_int w) \<and>
         (\<exists>pre. foldl (\<lambda>q t. record_window t q) [] ts =
                   pre @ cleanup_old_requests now_c w (foldl (\<lambda>q t. record_window t q) [] ts) \<and>
                 (\<forall>t \<in> set pre. t \<le> now_c - real_of_int w))"
proof -
  let ?q = "foldl (\<lambda>q t. record_window t q) [] ts"
  have q: "?q = ts" by (simp add: foldl_record_window)
  have fresh: "\<forall>t \<in> set (cleanup_old_requests now_c w ?q). now_c - t < real_of_int w"
    using cleanup_all_fresh[of ts _ now_c w] assms q by simp
  obtain pre where pre: "?q = pre @ cleanup_old_requests now_c w ?q"
    using cleanup_suffix[of ?q now_c w] by blast
  have "\<forall>t \<in> set pre. t \<le> now_c - real_of_int w"
    using cleanup_removed_old[OF pre] by blast
  with fresh pre show ?thesis by blast
qed

theorem evict_expired_fresh_and_prefix_witness:
  "sorted [0, 10, 100 :: real] \<and>
   cleanup_old_requests 100 60 (foldl (\<lambda>q t. record_window t q) [] [0, 10, 100]) = [100] \<and>
   (100 :: real) - 100 < real_of_int 60"
  using evict_expired_fresh_and_prefix [of "[0, 10, 100]" 100 60]
  by (simp add: record_window_def)

section \<open>The daily resolve counter (C5)\<close>

text \<open>
  C5 as stated fails on a tracker that has never been reset: no previous reset exists,
  so the call is one of the "other" calls, yet it changes the reset timestamp (from
  unset to the current time).
\<close>

theorem record_resolve_request_fresh_counterexample:
  "resolve_last_reset init_stats = None \<and>
   resolve_requests_today (record_resolve_request 7 init_stats) = resolve_requests_today init_stats + 1 \<and>
   resolve_last_reset (record_resolve_request 7 init_stats) \<noteq> resolve_last_reset init_stats"
  by (simp add: record_resolve_request_def reset_due_def init_stats_def)

text \<open>
  C5, amended. \<open>record_resolve_request\<close> sets the daily counter to exactly 1 and the
  reset timestamp to the current time when no reset has been recorded yet or when at
  least 24 hours (86400000000 microseconds) have passed since the previous reset; on
  every other call it increments the counter by exactly 1 and leaves the reset
  timestamp unchanged. No other field changes.
\<close>

theorem record_resolve_request_rollover:
  "record_resolve_request dt st =
     (if resolve_last_reset st = None \<or> (\<exists>r. resolve_last_reset st = Some r \<and> 86400000000 \<le> dt - r)
      then st\<lparr>resolve_requests_today := 1, resolve_last_reset := Some dt\<rparr>
      else st\<lparr>resolve_requests_today := resolve_requests_today st + 1\<rparr>)"
  by (cases "resolve_last_reset st")
     (auto simp: record_resolve_request_def reset_due_def timedelta_days_def Let_def)

theorem record_resolve_request_rollover_witness:
  "resolve_requests_today (record_resolve_request 86400000000
      (init_stats\<lparr>resolve_requests_today := 5, resolve_last_reset := Some 0\<rparr>)) = 1 \<and>
   resolve_requests_today (record_resolve_request 86399999999
      (init_stats\<lparr>resolve_requests_today := 5, resolve_last_reset := Some 0\<rparr>)) = 6 \<and>
   resolve_last_reset (record_resolve_request 86399999999
      (init_stats\<lparr>resolve_requests_today := 5, resolve_last_reset := Some 0\<rparr>)) = Some 0"
  using record_resolve_request_rollover
          [of 86400000000 "init_stats\<lparr>resolve_requests_today := 5, resolve_last_reset := Some 0\<rparr>"]
        record_resolve_request_rollover
          [of 86399999999 "init_stats\<lparr>resolve_requests_today := 5, resolve_last_reset := Some 0\<rparr>"]
  by simp

section \<open>The retry loop (C7, C2)\<close>

text \<open>One iteration of the loop of \<open>_execute_with_retry\<close>, case by case.\<close>

lemma loop_throttle_step:
  assumes "func (invocations rs) = Raises (FloodWaitError s)" and "s \<le> 60" and "retries rs < mr"
  shows "execute_with_retry_loop func clk mr rs rlo =
         execute_with_retry_loop func clk mr
           (rs\<lparr>invocations := Suc (invocations rs), retries := retries rs + 1, slept := slept rs @ [s]\<rparr>)
           (map_option (\<lambda>rl. rl\<lparr>stats := record_flood_error (clk (invocations rs)) (stats rl)\<rparr>) rlo)"
  using assms by (subst execute_with_retry_loop.simps) simp

lemma loop_throttle_exhausted:
  assumes "func (invocations rs) = Raises (FloodWaitError s)" and "s \<le> 60" and "retries rs = mr"
  shows "execute_with_retry_loop func clk mr rs rlo =
         (Raises (FloodWaitError s),
          rs\<lparr>invocations := Suc (invocations rs), retries := retries rs + 1\<rparr>,
          map_option (\<lambda>rl. rl\<lparr>stats := record_flood_error (clk (invocations rs)) (stats rl)\<rparr>) rlo)"
  using assms by (subst execute_with_retry_loop.simps) simp


lemma loop_success:
  assumes "func (invocations rs) = Returns v" and "retries rs \<le> mr"
  shows "execute_with_retry_loop func clk mr rs rlo =
         (Returns (Some v), rs\<lparr>invocations := Suc (invocations rs)\<rparr>, rlo)"
  using assms by (subst execute_with_retry_loop.simps) simp

lemma loop_absorb:
  assumes "\<forall>k < length ss. func (invocations rs + k) = Raises (FloodWaitError (ss ! k))"
    and "\<forall>s \<in> set ss. s \<le> 60"
    and "retries rs + int (length ss) \<le> mr"
  shows "\<exists>rlo'. execute_with_retry_loop func clk mr rs rlo =
           execute_with_retry_loop func clk mr
             (rs\<lparr>invocations := invocations rs + length ss,
                 retries := retries rs + int (length ss),
                 slept := slept rs @ ss\<rparr>) rlo'"
  using assms
proof (induction ss arbitrary: rs rlo)
  case Nil
  then show ?case by auto
next
  case (Cons s ss)
  let ?rs1 = "rs\<lparr>invocations := Suc (invocations rs), retries := retries rs + 1, slept := slept rs @ [s]\<rparr>"
  let ?rlo1 = "map_option (\<lambda>rl. rl\<lparr>stats := record_flood_error (clk (invocations rs)) (stats rl)\<rparr>) rlo"
  have f0: "func (invocations rs) = Raises (FloodWaitError s)"
    using Cons.prems(1) by (metis add.right_neutral length_greater_0_conv list.distinct(1) nth_Cons_0)
  have s60: "s \<le> 60" using Cons.prems(2) by simp
  have lt: "retries rs < mr" using Cons.prems(3) by simp
  have step: "execute_with_retry_loop func clk mr rs rlo = execute_with_retry_loop func clk mr ?rs1 ?rlo1"
    using f0 s60 lt by (rule loop_throttle_step)
  have p1: "\<forall>k < length ss. func (invocations ?rs1 + k) = Raises (FloodWaitError (ss ! k))"
  proof (intro allI impI)
    fix k assume "k < length ss"
    then have "Suc k < length (s # ss)" by simp
    with Cons.prems(1) have "func (invocations rs + Suc k) = Raises (FloodWaitError ((s # ss) ! Suc k))"
      by blast
    then show "func (invocations ?rs1 + k) = Raises (FloodWaitError (ss ! k))" by simp
  qed
  have p2: "\<forall>s \<in> set ss. s \<le> 60" using Cons.prems(2) by simp
  have p3: "retries ?rs1 + int (length ss) \<le> mr" using Cons.prems(3) by simp
  from Cons.IH[OF p1 p2 p3, of ?rlo1] obtain rlo' where
    "execute_with_retry_loop func clk mr ?rs1 ?rlo1 =
       execute_with_retry_loop func clk mr
         (?rs1\<lparr>invocations := invocations ?rs1 + length ss,
               retries := retries ?rs1 + int (length ss),
               slept := slept ?rs1 @ ss\<rparr>) rlo'" by blast
  with step have "execute_with_retry_loop func clk mr rs rlo =
       execute_with_retry_loop func clk mr
         (rs\<lparr>invocations := invocations rs + length (s # ss),
               retries := retries rs + int (length (s # ss)),
               slept := slept rs @ (s # ss)\<rparr>) rlo'"
    by (simp add: add.assoc)
  then show ?case by blast
qed

text \<open>
  Inside the 60 seconds that the wrapper accepts. Let the first \<open>length ss\<close>
  invocations of the wrapped call each raise a throttle signal, the \<open>k\<close>-th asking for
  \<open>ss ! k\<close> seconds, every one at most 60. Then the wrapper sleeps exactly the
  requested durations in order, counting one retry per signal and re-invoking the call
  each time, as long as the count stays within \<open>mr\<close>, the maximal retry count it was
  given: if the next invocation succeeds, its value is returned, with \<open>length ss\<close>
  retries recorded and \<open>slept = ss\<close>; and when the signals number \<open>mr + 1\<close>, the last
  one is re-raised to the caller without a sleep for it.
\<close>

lemma retry_loop_within_sixty_seconds:
  assumes "\<forall>k < length ss. func k = Raises (FloodWaitError (ss ! k))"
    and "\<forall>s \<in> set ss. s \<le> 60"
  shows "(int (length ss) \<le> mr \<and> func (length ss) = Returns v \<longrightarrow>
            (\<exists>rlo'. execute_with_retry func clk mr rlo =
               (Returns (Some v),
                \<lparr>retries = int (length ss), invocations = Suc (length ss), slept = ss\<rparr>, rlo'))) \<and>
         (ss \<noteq> [] \<and> int (length ss) = mr + 1 \<longrightarrow>
            (\<exists>rlo'. execute_with_retry func clk mr rlo =
               (Raises (FloodWaitError (last ss)),
                \<lparr>retries = mr + 1, invocations = length ss, slept = butlast ss\<rparr>, rlo')))"
proof (intro conjI impI)
  let ?rs0 = "\<lparr>retries = 0, invocations = 0, slept = []\<rparr>"
  assume a: "int (length ss) \<le> mr \<and> func (length ss) = Returns v"
  have "\<forall>k < length ss. func (invocations ?rs0 + k) = Raises (FloodWaitError (ss ! k))"
    using assms(1) by simp
  moreover have "retries ?rs0 + int (length ss) \<le> mr" using a by simp
  ultimately obtain rlo' where
    "execute_with_retry_loop func clk mr ?rs0 rlo =
       execute_with_retry_loop func clk mr
         (?rs0\<lparr>invocations := invocations ?rs0 + length ss,
               retries := retries ?rs0 + int (length ss),
               slept := slept ?rs0 @ ss\<rparr>) rlo'"
    using loop_absorb[of ss func ?rs0 mr clk rlo] assms(2) by blast
  then have "execute_with_retry func clk mr rlo =
       execute_with_retry_loop func clk mr
         \<lparr>retries = int (length ss), invocations = length ss, slept = ss\<rparr> rlo'"
    by (simp add: execute_with_retry_def)
  also have "\<dots> = (Returns (Some v),
       \<lparr>retries = int (length ss), invocations = Suc (length ss), slept = ss\<rparr>, rlo')"
    using a by (subst loop_success[where v = v]) simp_all
  finally show "\<exists>rlo'. execute_with_retry func clk mr rlo =
       (Returns (Some v), \<lparr>retries = int (length ss), invocations = Suc (length ss), slept = ss\<rparr>, rlo')"
    by blast
next
  let ?rs0 = "\<lparr>retries = 0, invocations = 0, slept = []\<rparr>"
  let ?bs = "butlast ss"
  assume b: "ss \<noteq> [] \<and> int (length ss) = mr + 1"
  then have "length ss = Suc (length ?bs)" by (cases ss rule: rev_cases) simp_all
  with b have len: "int (length ?bs) = mr" by linarith
  have "\<forall>k < length ?bs. func (invocations ?rs0 + k) = Raises (FloodWaitError (?bs ! k))"
    using assms(1) by (simp add: nth_butlast)
  moreover have "\<forall>s \<in> set ?bs. s \<le> 60" using assms(2) by (meson in_set_butlastD)
  moreover have "retries ?rs0 + int (length ?bs) \<le> mr" using len by simp
  ultimately obtain rlo' where
    "execute_with_retry_loop func clk mr ?rs0 rlo =
       execute_with_retry_loop func clk mr
         (?rs0\<lparr>invocations := invocations ?rs0 + length ?bs,
               retries := retries ?rs0 + int (length ?bs),
               slept := slept ?rs0 @ ?bs\<rparr>) rlo'"
    using loop_absorb[of ?bs func ?rs0 mr clk rlo] by blast
  then have e: "execute_with_retry func clk mr rlo =
       execute_with_retry_loop func clk mr
         \<lparr>retries = mr, invocations = length ?bs, slept = ?bs\<rparr> rlo'"
    using len by (simp add: execute_with_retry_def)
  have lastf: "func (length ?bs) = Raises (FloodWaitError (last ss))"
    using assms(1) b by (simp add: last_conv_nth)
  have l60: "last ss \<le> 60" using assms(2) b by simp
  have "execute_with_retry_loop func clk mr
         \<lparr>retries = mr, invocations = length ?bs, slept = ?bs\<rparr> rlo' =
        (Raises (FloodWaitError (last ss)),
         \<lparr>retries = mr + 1, invocations = length ss, slept = ?bs\<rparr>,
         map_option (\<lambda>rl. rl\<lparr>stats := record_flood_error (clk (length ?bs)) (stats rl)\<rparr>) rlo')"
    using lastf l60 b by (subst loop_throttle_exhausted[where s = "last ss"]) simp_all
  with e show "\<exists>rlo'. execute_with_retry func clk mr rlo =
       (Raises (FloodWaitError (last ss)),
        \<lparr>retries = mr + 1, invocations = length ss, slept = butlast ss\<rparr>, rlo')"
    by simp
qed

lemma retry_loop_five_seconds_then_success:
  "execute_with_retry (\<lambda>k. if k = 0 then Raises (FloodWaitError 5) else Returns ''ok'')
      (\<lambda>k. 0) 3 None =
     (Returns (Some ''ok''), \<lparr>retries = 1, invocations = 2, slept = [5]\<rparr>, None)"
proof -
  let ?f = "\<lambda>k::nat. if k = 0 then Raises (FloodWaitError 5) else Returns ''ok''"
  have h1: "\<forall>k < length [5::int]. ?f k = Raises (FloodWaitError ([5] ! k))" by simp
  have h2: "\<forall>s \<in> set [5::int]. s \<le> 60" by simp
  from retry_loop_within_sixty_seconds[OF h1 h2, of 3 "''ok''" "\<lambda>k. 0" None]
  obtain rlo' where r: "execute_with_retry ?f (\<lambda>k. 0) 3 None =
      (Returns (Some ''ok''), \<lparr>retries = 1, invocations = 2, slept = [5]\<rparr>, rlo')"
    by auto
  have "snd (snd (execute_with_retry ?f (\<lambda>k. 0) 3 None)) = None"
    by (simp add: execute_with_retry_def execute_with_retry_loop.simps)
  with r show ?thesis by simp
qed

text \<open>
  C2, at the failing input. With the default configuration (\<open>max_flood_wait = 300\<close>)
  a throttle signal asking for 100 seconds does not exceed the configured bound, yet
  the wrapper aborts at once: one invocation, no sleep, no retry, the signal raised
  to the caller. The wrapper compares with the constant 60 and never reads
  \<open>max_flood_wait\<close>.
\<close>

theorem retry_wrapper_aborts_below_max_flood_wait:
  "100 \<le> max_flood_wait default_config \<and>
   execute_with_retry (\<lambda>k. Raises (FloodWaitError 100)) (\<lambda>k. 0) 3 None =
     (Raises (FloodWaitError 100) :: unit option outcome,
      \<lparr>retries = 0, invocations = 1, slept = []\<rparr>, None)"
  by (simp add: default_config_def execute_with_retry_def execute_with_retry_loop.simps)

text \<open>
  C7, at the failing input. With the default configuration (\<open>max_flood_wait = 300\<close>)
  and \<open>max_retries = 3\<close>, let the first invocation raise a throttle signal asking for
  120 seconds and the second one succeed. The requested wait is within the configured
  bound, yet the wrapper neither sleeps nor counts a retry nor calls again: after one
  invocation the signal is raised to the caller, and the success is never reached.
  This is the comparison with the constant 60 again.
\<close>

theorem retry_wrapper_no_retry_within_max_flood_wait:
  "120 \<le> max_flood_wait default_config \<and>
   execute_with_retry (nth [Raises (FloodWaitError 120), Returns ''ok'']) int 3 None =
     (Raises (FloodWaitError 120), \<lparr>retries = 0, invocations = 1, slept = []\<rparr>, None)"
  by (simp add: default_config_def execute_with_retry_def execute_with_retry_loop.simps)

section \<open>The pre-flight quota check (C8)\<close>

text \<open>One day is 86400000000 microseconds; \<open>days >= 1\<close> holds from that difference on.\<close>

lemma day_threshold: "(1 \<le> timedelta_days d) = (86400000000 \<le> d)"
proof -
  have "(1 \<le> d div 86400000000) = (0 < d div 86400000000)" by linarith
  also have "\<dots> = (86400000000 \<le> d)" by (rule pos_imp_zdiv_pos_iff) simp
  finally show ?thesis by (simp add: timedelta_days_def)
qed

lemma reset_due_Some:
  "resolve_last_reset st = Some r \<Longrightarrow> reset_due dt st = (86400000000 \<le> dt - r)"
  by (simp add: reset_due_def day_threshold)

lemma record_resolve_no_rollover:
  "resolve_last_reset st = Some r \<Longrightarrow> dt - r < 86400000000 \<Longrightarrow>
   record_resolve_request dt st = st\<lparr>resolve_requests_today := resolve_requests_today st + 1\<rparr>"
  by (simp add: record_resolve_request_def reset_due_Some)


lemma check_resolve_limit_no_rollover:
  "resolve_last_reset (stats rl) = Some r \<Longrightarrow> dt - r < 86400000000 \<Longrightarrow>
   check_resolve_limit dt rl =
     (resolve_requests_today (stats rl) < resolve_daily_limit (config rl), rl)"
  by (simp add: check_resolve_limit_def reset_due_Some Let_def)







section \<open>What each step of the admission sequence changes\<close>

text \<open>
  The wait methods touch their own queue and the counter of rate-limited requests,
  nothing else; \<open>admit\<close> adds one recorded request.
\<close>

lemma wait_for_global_limit_frame:
  assumes "wait_for_global_limit now now_c rl = (r, rl')"
  shows "config rl' = config rl \<and> semaphore rl' = semaphore rl \<and>
         chat_queues rl' = chat_queues rl \<and>
         (stats rl' = stats rl \<or> stats rl' = record_rate_limited (stats rl))"
  using assms
  by (auto simp: wait_for_global_limit_def Let_def split: if_splits list.splits)

lemma wait_for_global_limit_queue:
  assumes "wait_for_global_limit now now_c rl = (r, rl')"
  shows "global_queue rl' = cleanup_old_requests now_c 60 (global_queue rl) \<or>
         global_queue rl' = cleanup_old_requests now_c 60 (global_queue rl) @ [now]"
  using assms
  by (auto simp: wait_for_global_limit_def record_window_def Let_def split: if_splits list.splits)

lemma wait_for_chat_limit_frame:
  assumes "wait_for_chat_limit c g now now_c rl = (r, rl')"
  shows "config rl' = config rl \<and> semaphore rl' = semaphore rl \<and>
         global_queue rl' = global_queue rl \<and>
         (stats rl' = stats rl \<or> stats rl' = record_rate_limited (stats rl))"
  using assms
  by (auto simp: wait_for_chat_limit_def Let_def split: if_splits list.splits)

lemma wait_for_chat_limit_queue:
  assumes "wait_for_chat_limit c g now now_c rl = (r, rl')"
  shows "(\<forall>d. d \<noteq> c \<longrightarrow> chat_queues rl' d = chat_queues rl d) \<and>
         (chat_queues rl' c = cleanup_old_requests now_c (if g then 60 else 1) (chat_queues rl c) \<or>
          chat_queues rl' c = cleanup_old_requests now_c (if g then 60 else 1) (chat_queues rl c) @ [now])"
  using assms
  by (auto simp: wait_for_chat_limit_def record_window_def Let_def split: if_splits list.splits)


lemma admit_frame:
  assumes "admit m c p ck rl = (r, rl')"
  shows "config rl' = config rl \<and> semaphore rl' = semaphore rl \<and>
         (stats rl' = record_request (dt_request ck) (stats rl) \<or>
          stats rl' = record_rate_limited (record_request (dt_request ck) (stats rl)) \<or>
          stats rl' = record_rate_limited (record_rate_limited (record_request (dt_request ck) (stats rl))))"
proof -
  let ?rl1 = "rl\<lparr>stats := record_request (dt_request ck) (stats rl)\<rparr>"
  obtain rg rl2 where g: "wait_for_global_limit (g_now ck) (g_now_c ck) ?rl1 = (rg, rl2)"
    by (cases "wait_for_global_limit (g_now ck) (g_now_c ck) ?rl1")
  let ?chat = "case c of
                 None \<Rightarrow> (Inr 0, rl2)
               | Some x \<Rightarrow>
                   if x = [] then (Inr 0, rl2)
                   else wait_for_chat_limit x (determine_chat_type c m) (c_now ck) (c_now_c ck) rl2"
  obtain rc rl3 where ch: "?chat = (rc, rl3)" by (cases ?chat)
  have f2: "config rl2 = config rl \<and> semaphore rl2 = semaphore rl \<and>
            (stats rl2 = record_request (dt_request ck) (stats rl) \<or>
             stats rl2 = record_rate_limited (record_request (dt_request ck) (stats rl)))"
    using wait_for_global_limit_frame[OF g] by simp
  have f3: "config rl3 = config rl2 \<and> semaphore rl3 = semaphore rl2 \<and>
            (stats rl3 = stats rl2 \<or> stats rl3 = record_rate_limited (stats rl2))"
  proof (cases "\<exists>x. c = Some x \<and> x \<noteq> []")
    case True
    then obtain x where x: "c = Some x" "x \<noteq> []" by blast
    with ch have "wait_for_chat_limit x (determine_chat_type c m) (c_now ck) (c_now_c ck) rl2 = (rc, rl3)"
      by simp
    from wait_for_chat_limit_frame[OF this] show ?thesis by simp
  next
    case False
    with ch have "rl3 = rl2" by (cases c) (auto split: if_splits)
    then show ?thesis by simp
  qed
  have "rl' = rl2 \<or> rl' = rl3"
    using assms g ch by (auto simp: admit_def Let_def split: sum.splits)
  with f2 f3 show ?thesis by auto
qed

lemma admit_resolve_fields:
  assumes "admit m c p ck rl = (r, rl')"
  shows "resolve_requests_today (stats rl') = resolve_requests_today (stats rl) \<and>
         resolve_last_reset (stats rl') = resolve_last_reset (stats rl)"
  using admit_frame[OF assms]
  by (auto simp: record_request_def record_rate_limited_def)

section \<open>Resolve-class calls in \<open>acquire\<close> (C10)\<close>

text \<open>
  The admission sequence neither reads nor writes the daily counter and its reset
  timestamp: run on a limiter whose two quota fields are replaced by any values, every
  step returns what it returns otherwise, with those values carried along.
\<close>

lemma wait_for_global_limit_quota_indep:
  "wait_for_global_limit now now_c
     (rl\<lparr>stats := (stats rl)\<lparr>resolve_requests_today := n, resolve_last_reset := r\<rparr>\<rparr>) =
   (case wait_for_global_limit now now_c rl of
      (res, rl') \<Rightarrow>
        (res, rl'\<lparr>stats := (stats rl')\<lparr>resolve_requests_today := n, resolve_last_reset := r\<rparr>\<rparr>))"
  by (simp add: wait_for_global_limit_def Let_def record_rate_limited_def split: list.splits)

lemma wait_for_chat_limit_quota_indep:
  "wait_for_chat_limit ch g now now_c
     (rl\<lparr>stats := (stats rl)\<lparr>resolve_requests_today := n, resolve_last_reset := r\<rparr>\<rparr>) =
   (case wait_for_chat_limit ch g now now_c rl of
      (res, rl') \<Rightarrow>
        (res, rl'\<lparr>stats := (stats rl')\<lparr>resolve_requests_today := n, resolve_last_reset := r\<rparr>\<rparr>))"
  by (simp add: wait_for_chat_limit_def Let_def record_rate_limited_def split: list.splits)

lemma record_request_quota_indep:
  "record_request dt (st\<lparr>resolve_requests_today := n, resolve_last_reset := r\<rparr>) =
   (record_request dt st)\<lparr>resolve_requests_today := n, resolve_last_reset := r\<rparr>"
  by (simp add: record_request_def)

lemma admit_quota_indep:
  "admit m c p ck
     (rl\<lparr>stats := (stats rl)\<lparr>resolve_requests_today := n, resolve_last_reset := r\<rparr>\<rparr>) =
   (case admit m c p ck rl of
      (res, rl') \<Rightarrow>
        (res, rl'\<lparr>stats := (stats rl')\<lparr>resolve_requests_today := n, resolve_last_reset := r\<rparr>\<rparr>))"
proof -
  let ?rl1 = "rl\<lparr>stats := record_request (dt_request ck) (stats rl)\<rparr>"
  obtain rg rl2 where g: "wait_for_global_limit (g_now ck) (g_now_c ck) ?rl1 = (rg, rl2)"
    by (cases "wait_for_global_limit (g_now ck) (g_now_c ck) ?rl1")
  have g': "wait_for_global_limit (g_now ck) (g_now_c ck)
              (?rl1\<lparr>stats := (stats ?rl1)\<lparr>resolve_requests_today := n, resolve_last_reset := r\<rparr>\<rparr>) =
            (rg, rl2\<lparr>stats := (stats rl2)\<lparr>resolve_requests_today := n, resolve_last_reset := r\<rparr>\<rparr>)"
    by (simp only: wait_for_global_limit_quota_indep g prod.case)
  show ?thesis
  proof (cases rg)
    case (Inl e)
    with g g' show ?thesis
      by (simp add: admit_def Let_def record_request_quota_indep)
  next
    case (Inr w)
    show ?thesis
    proof (cases "\<exists>x. c = Some x \<and> x \<noteq> []")
      case False
      then have c: "c = None \<or> c = Some []" by (cases c) auto
      with g g' Inr show ?thesis
        by (auto simp: admit_def Let_def record_request_quota_indep split: sum.splits)
    next
      case True
      then obtain x where x: "c = Some x" "x \<noteq> []" by blast
      obtain rc rl3 where ch:
        "wait_for_chat_limit x (determine_chat_type c m) (c_now ck) (c_now_c ck) rl2 = (rc, rl3)"
        by (cases "wait_for_chat_limit x (determine_chat_type c m) (c_now ck) (c_now_c ck) rl2")
      have ch': "wait_for_chat_limit x (determine_chat_type c m) (c_now ck) (c_now_c ck)
                   (rl2\<lparr>stats := (stats rl2)\<lparr>resolve_requests_today := n, resolve_last_reset := r\<rparr>\<rparr>) =
                 (rc, rl3\<lparr>stats := (stats rl3)\<lparr>resolve_requests_today := n, resolve_last_reset := r\<rparr>\<rparr>)"
        by (simp only: wait_for_chat_limit_quota_indep ch prod.case)
      from g g' Inr x ch ch' show ?thesis
        by (auto simp: admit_def Let_def record_request_quota_indep split: sum.splits)
    qed
  qed
qed

lemma acquire_quota_indep:
  assumes "\<not> str_contains ''resolve'' (lower m)"
  shows "acquire m c p ck
     (rl\<lparr>stats := (stats rl)\<lparr>resolve_requests_today := n, resolve_last_reset := r\<rparr>\<rparr>) =
   map_option
     (\<lambda>(g, rl').
        (g, rl'\<lparr>stats := (stats rl')\<lparr>resolve_requests_today := n, resolve_last_reset := r\<rparr>\<rparr>))
     (acquire m c p ck rl)"
proof -
  let ?rl1 = "rl\<lparr>semaphore := semaphore rl - 1\<rparr>"
  obtain ra rl2 where a: "admit m c p ck ?rl1 = (ra, rl2)" by (cases "admit m c p ck ?rl1")
  have a': "admit m c p ck
              (?rl1\<lparr>stats := (stats ?rl1)\<lparr>resolve_requests_today := n, resolve_last_reset := r\<rparr>\<rparr>) =
            (ra, rl2\<lparr>stats := (stats rl2)\<lparr>resolve_requests_today := n, resolve_last_reset := r\<rparr>\<rparr>)"
    by (simp only: admit_quota_indep a prod.case)
  have e: "rl\<lparr>stats := (stats rl)\<lparr>resolve_requests_today := n, resolve_last_reset := r\<rparr>,
              semaphore := semaphore rl - 1\<rparr> =
           ?rl1\<lparr>stats := (stats ?rl1)\<lparr>resolve_requests_today := n, resolve_last_reset := r\<rparr>\<rparr>"
    by simp
  have "acquire m c p ck
          (rl\<lparr>stats := (stats rl)\<lparr>resolve_requests_today := n, resolve_last_reset := r\<rparr>\<rparr>) =
        (if semaphore rl \<le> 0 then None
         else (case admit m c p ck
                 (?rl1\<lparr>stats := (stats ?rl1)\<lparr>resolve_requests_today := n, resolve_last_reset := r\<rparr>\<rparr>) of
                 (Inl e, rl2) \<Rightarrow> Some (False, rl2\<lparr>semaphore := semaphore rl2 + 1\<rparr>)
               | (Inr u, rl2) \<Rightarrow> Some (True, rl2)))"
    using assms by (simp add: acquire_def e)
  also have "\<dots> = map_option
     (\<lambda>(g, rl').
        (g, rl'\<lparr>stats := (stats rl')\<lparr>resolve_requests_today := n, resolve_last_reset := r\<rparr>\<rparr>))
     (acquire m c p ck rl)"
    unfolding a' using assms a by (cases ra) (simp_all add: acquire_def)
  finally show ?thesis .
qed


lemma acquire_other_not_counted:
  assumes "\<not> str_contains ''resolve'' (lower m)" and "acquire m c p ck rl = Some (g, rl')"
  shows "resolve_requests_today (stats rl') = resolve_requests_today (stats rl) \<and>
         resolve_last_reset (stats rl') = resolve_last_reset (stats rl)"
proof -
  let ?rl1 = "rl\<lparr>semaphore := semaphore rl - 1\<rparr>"
  obtain r rl2 where a: "admit m c p ck ?rl1 = (r, rl2)" by (cases "admit m c p ck ?rl1")
  from assms a have "stats rl' = stats rl2"
    by (auto simp: acquire_def split: if_splits sum.splits)
  with admit_resolve_fields[OF a] show ?thesis by simp
qed

lemma acquire_resolve_checked_and_counted:
  assumes "str_contains ''resolve'' (lower m)" and "acquire m c p ck rl = Some (g, rl')"
  shows "case check_resolve_limit (dt_check ck) rl of
           (ok, rl0) \<Rightarrow>
             if ok
             then resolve_requests_today (stats rl') =
                    resolve_requests_today (record_resolve_request (dt_resolve ck) (stats rl0)) \<and>
                  resolve_last_reset (stats rl') =
                    resolve_last_reset (record_resolve_request (dt_resolve ck) (stats rl0))
             else \<not> g \<and> rl' = rl0"
proof -
  obtain ok rl0 where c: "check_resolve_limit (dt_check ck) rl = (ok, rl0)"
    by (cases "check_resolve_limit (dt_check ck) rl")
  show ?thesis
  proof (cases ok)
    case False
    with assms c have "\<not> g \<and> rl' = rl0" by (simp add: acquire_def)
    with c False show ?thesis by simp
  next
    case ok: True
    let ?rl1 = "rl0\<lparr>stats := record_resolve_request (dt_resolve ck) (stats rl0)\<rparr>"
    let ?rl1' = "?rl1\<lparr>semaphore := semaphore ?rl1 - 1\<rparr>"
    obtain r rl2 where a: "admit m c p ck ?rl1' = (r, rl2)" by (cases "admit m c p ck ?rl1'")
    from assms c ok a have "stats rl' = stats rl2"
      by (auto simp: acquire_def split: if_splits sum.splits)
    with admit_resolve_fields[OF a] c ok show ?thesis by simp
  qed
qed

lemma acquire_resolve_quota_spent:
  assumes "str_contains ''resolve'' (lower m)"
    and "resolve_last_reset (stats rl) = Some t" and "dt_check ck - t < 86400000000"
    and "resolve_daily_limit (config rl) \<le> resolve_requests_today (stats rl)"
  shows "acquire m c p ck rl = Some (False, rl)"
proof -
  have "check_resolve_limit (dt_check ck) rl = (False, rl)"
    using check_resolve_limit_no_rollover[OF assms(2) assms(3)] assms(4) by simp
  with assms(1) show ?thesis by (simp add: acquire_def)
qed

lemma acquire_resolve_counts_one:
  assumes "str_contains ''resolve'' (lower m)"
    and "resolve_last_reset (stats rl) = Some t" and "dt_check ck - t < 86400000000"
    and "dt_resolve ck - t < 86400000000"
    and "resolve_requests_today (stats rl) < resolve_daily_limit (config rl)"
    and "acquire m c p ck rl = Some (g, rl')"
  shows "resolve_requests_today (stats rl') = resolve_requests_today (stats rl) + 1 \<and>
         resolve_last_reset (stats rl') = Some t"
proof -
  have c: "check_resolve_limit (dt_check ck) rl = (True, rl)"
    using check_resolve_limit_no_rollover[OF assms(2) assms(3)] assms(5) by simp
  have r: "record_resolve_request (dt_resolve ck) (stats rl) =
             (stats rl)\<lparr>resolve_requests_today := resolve_requests_today (stats rl) + 1\<rparr>"
    using assms(2) assms(4) by (rule record_resolve_no_rollover)
  from acquire_resolve_checked_and_counted[OF assms(1) assms(6)] c r assms(2)
  show ?thesis by simp
qed

lemma resolve_methods_without_substring:
  "filter (\<lambda>n. \<not> str_contains ''resolve'' (lower n)) resolve_methods =
     [''search_global'', ''search_chats'', ''search_users'', ''get_entity_info'',
      ''check_username'']"
  by (simp add: resolve_methods_def lower_def lower_char_def)

text \<open>
  C10. If the lower-cased method name does not contain \<open>resolve\<close>, \<open>acquire\<close> neither
  checks nor counts: whatever the daily counter and its reset timestamp are set to, the
  decision is the same and the two fields come back as they were (so also with the
  quota spent). If the name contains \<open>resolve\<close>, the quota is checked and the call
  counted: with the quota spent and no rollover due, \<open>acquire\<close> yields \<open>False\<close> and
  changes nothing; with quota left and no rollover due, the counter is one more after
  the call; and in every case the two fields are those that \<open>check_resolve_limit\<close>
  followed by \<open>record_resolve_request\<close> leaves, or the check fails and \<open>False\<close> is
  yielded. Of the wrapper's seven resolve methods, five lack the substring and so are
  never checked or counted by \<open>acquire\<close>: \<open>search_global\<close>, \<open>search_chats\<close>,
  \<open>search_users\<close>, \<open>get_entity_info\<close>, \<open>check_username\<close>.
\<close>

theorem acquire_resolve_class_iff_substring:
  "(\<not> str_contains ''resolve'' (lower m) \<longrightarrow>
      (\<forall>n r. acquire m c p ck
                (rl\<lparr>stats := (stats rl)\<lparr>resolve_requests_today := n, resolve_last_reset := r\<rparr>\<rparr>) =
              map_option
                (\<lambda>(g, rl').
                   (g, rl'\<lparr>stats := (stats rl')\<lparr>resolve_requests_today := n,
                                                resolve_last_reset := r\<rparr>\<rparr>))
                (acquire m c p ck rl)) \<and>
      (\<forall>g rl'. acquire m c p ck rl = Some (g, rl') \<longrightarrow>
         resolve_requests_today (stats rl') = resolve_requests_today (stats rl) \<and>
         resolve_last_reset (stats rl') = resolve_last_reset (stats rl))) \<and>
   (str_contains ''resolve'' (lower m) \<longrightarrow>
      (\<forall>t. resolve_last_reset (stats rl) = Some t \<and> dt_check ck - t < 86400000000 \<and>
           resolve_daily_limit (config rl) \<le> resolve_requests_today (stats rl) \<longrightarrow>
           acquire m c p ck rl = Some (False, rl)) \<and>
      (\<forall>t g rl'. resolve_last_reset (stats rl) = Some t \<and> dt_check ck - t < 86400000000 \<and>
           dt_resolve ck - t < 86400000000 \<and>
           resolve_requests_today (stats rl) < resolve_daily_limit (config rl) \<and>
           acquire m c p ck rl = Some (g, rl') \<longrightarrow>
           resolve_requests_today (stats rl') = resolve_requests_today (stats rl) + 1 \<and>
           resolve_last_reset (stats rl') = Some t) \<and>
      (\<forall>g rl'. acquire m c p ck rl = Some (g, rl') \<longrightarrow>
         (case check_resolve_limit (dt_check ck) rl of
            (ok, rl0) \<Rightarrow>
              if ok
              then resolve_requests_today (stats rl') =
                     resolve_requests_today (record_resolve_request (dt_resolve ck) (stats rl0)) \<and>
                   resolve_last_reset (stats rl') =
                     resolve_last_reset (record_resolve_request (dt_resolve ck) (stats rl0))
              else \<not> g \<and> rl' = rl0))) \<and>
   filter (\<lambda>n. \<not> str_contains ''resolve'' (lower n)) resolve_methods =
     [''search_global'', ''search_chats'', ''search_users'', ''get_entity_info'',
      ''check_username'']"
proof (intro conjI impI allI)
  fix n r
  assume "\<not> str_contains ''resolve'' (lower m)"
  then show "acquire m c p ck
                (rl\<lparr>stats := (stats rl)\<lparr>resolve_requests_today := n, resolve_last_reset := r\<rparr>\<rparr>) =
              map_option
                (\<lambda>(g, rl').
                   (g, rl'\<lparr>stats := (stats rl')\<lparr>resolve_requests_today := n,
                                                resolve_last_reset := r\<rparr>\<rparr>))
                (acquire m c p ck rl)"
    by (rule acquire_quota_indep)
next
  fix g rl'
  assume "\<not> str_contains ''resolve'' (lower m)" and "acquire m c p ck rl = Some (g, rl')"
  then have "resolve_requests_today (stats rl') = resolve_requests_today (stats rl) \<and>
             resolve_last_reset (stats rl') = resolve_last_reset (stats rl)"
    by (rule acquire_other_not_counted)
  then show "resolve_requests_today (stats rl') = resolve_requests_today (stats rl)"
    and "resolve_last_reset (stats rl') = resolve_last_reset (stats rl)" by simp_all
next
  fix t
  assume "str_contains ''resolve'' (lower m)"
    and "resolve_last_reset (stats rl) = Some t \<and> dt_check ck - t < 86400000000 \<and>
         resolve_daily_limit (config rl) \<le> resolve_requests_today (stats rl)"
  then show "acquire m c p ck rl = Some (False, rl)"
    using acquire_resolve_quota_spent[of m rl t ck c p] by blast
next
  fix t g rl'
  assume s: "str_contains ''resolve'' (lower m)"
    and a: "resolve_last_reset (stats rl) = Some t \<and> dt_check ck - t < 86400000000 \<and>
         dt_resolve ck - t < 86400000000 \<and>
         resolve_requests_today (stats rl) < resolve_daily_limit (config rl) \<and>
         acquire m c p ck rl = Some (g, rl')"
  then have "resolve_requests_today (stats rl') = resolve_requests_today (stats rl) + 1 \<and>
             resolve_last_reset (stats rl') = Some t"
    using acquire_resolve_counts_one[of m rl t ck c p g rl'] by blast
  then show "resolve_requests_today (stats rl') = resolve_requests_today (stats rl) + 1"
    and "resolve_last_reset (stats rl') = Some t" by simp_all
next
  fix g rl'
  assume "str_contains ''resolve'' (lower m)" and "acquire m c p ck rl = Some (g, rl')"
  then show "case check_resolve_limit (dt_check ck) rl of
            (ok, rl0) \<Rightarrow>
              if ok
              then resolve_requests_today (stats rl') =
                     resolve_requests_today (record_resolve_request (dt_resolve ck) (stats rl0)) \<and>
                   resolve_last_reset (stats rl') =
                     resolve_last_reset (record_resolve_request (dt_resolve ck) (stats rl0))
              else \<not> g \<and> rl' = rl0"
    by (rule acquire_resolve_checked_and_counted)
next
  show "filter (\<lambda>n. \<not> str_contains ''resolve'' (lower n)) resolve_methods =
     [''search_global'', ''search_chats'', ''search_users'', ''get_entity_info'',
      ''check_username'']"
    by (rule resolve_methods_without_substring)
qed


theorem acquire_resolve_class_iff_substring_witness:
  "acquire ''Resolve_Username'' None 1
     \<lparr>dt_check = 5, dt_resolve = 5, dt_request = 5, g_now = 0, g_now_c = 0,
      c_now = 0, c_now_c = 0, base_delay = 1 / 10\<rparr>
     \<lparr>config = default_config,
      stats = init_stats\<lparr>resolve_requests_today := 200, resolve_last_reset := Some 0\<rparr>,
      global_queue = [], chat_queues = (\<lambda>c. []), semaphore = 5\<rparr> =
     Some (False,
       \<lparr>config = default_config,
        stats = init_stats\<lparr>resolve_requests_today := 200, resolve_last_reset := Some 0\<rparr>,
        global_queue = [], chat_queues = (\<lambda>c. []), semaphore = 5\<rparr>) \<and>
   (case acquire ''search_global'' None 1
           \<lparr>dt_check = 5, dt_resolve = 5, dt_request = 5, g_now = 0, g_now_c = 0,
            c_now = 0, c_now_c = 0, base_delay = 1 / 10\<rparr>
           \<lparr>config = default_config,
            stats = init_stats\<lparr>resolve_requests_today := 200, resolve_last_reset := Some 0\<rparr>,
            global_queue = [], chat_queues = (\<lambda>c. []), semaphore = 5\<rparr> of
      None \<Rightarrow> False
    | Some (g, rl') \<Rightarrow> g \<and> resolve_requests_today (stats rl') = 200 \<and>
                       resolve_last_reset (stats rl') = Some 0) \<and>
   (case acquire ''Resolve_Username'' None 1
           \<lparr>dt_check = 5, dt_resolve = 5, dt_request = 5, g_now = 0, g_now_c = 0,
            c_now = 0, c_now_c = 0, base_delay = 1 / 10\<rparr>
           \<lparr>config = default_config,
            stats = init_stats\<lparr>resolve_requests_today := 5, resolve_last_reset := Some 0\<rparr>,
            global_queue = [], chat_queues = (\<lambda>c. []), semaphore = 5\<rparr> of
      None \<Rightarrow> False
    | Some (g, rl') \<Rightarrow> g \<and> resolve_requests_today (stats rl') = 6 \<and>
                       resolve_last_reset (stats rl') = Some 0)"
proof -
  let ?ck = "\<lparr>dt_check = 5, dt_resolve = 5, dt_request = 5, g_now = 0, g_now_c = 0,
      c_now = 0, c_now_c = 0, base_delay = 1 / 10\<rparr>"
  let ?rl0 = "\<lparr>config = default_config, stats = init_stats, global_queue = [],
      chat_queues = (\<lambda>c. []), semaphore = 5\<rparr>"
  let ?spent = "\<lparr>config = default_config,
      stats = init_stats\<lparr>resolve_requests_today := 200, resolve_last_reset := Some 0\<rparr>,
      global_queue = [], chat_queues = (\<lambda>c. []), semaphore = 5\<rparr>"
  let ?five = "\<lparr>config = default_config,
      stats = init_stats\<lparr>resolve_requests_today := 5, resolve_last_reset := Some 0\<rparr>,
      global_queue = [], chat_queues = (\<lambda>c. []), semaphore = 5\<rparr>"
  have s1: "str_contains ''resolve'' (lower ''Resolve_Username'')" by code_simp
  have s2: "\<not> str_contains ''resolve'' (lower ''search_global'')"
    by (simp add: lower_def lower_char_def)
  have gl: "global_limit default_config = 30" by (simp add: default_config_def)
  have lim: "resolve_daily_limit default_config = 200" by (simp add: default_config_def)
  have w1: "acquire ''Resolve_Username'' None 1 ?ck ?spent = Some (False, ?spent)"
    using acquire_resolve_class_iff_substring
            [where m = "''Resolve_Username''" and c = None and p = 1 and ck = ?ck and rl = ?spent]
          s1
    by (simp add: lim)
  have "\<exists>rl'. acquire ''search_global'' None 1 ?ck ?rl0 = Some (True, rl')"
    by (simp add: acquire_def s2 admit_def wait_for_global_limit_def add_human_delay_def
          gl Let_def)
  then obtain y where y: "acquire ''search_global'' None 1 ?ck ?rl0 = Some (True, y)" ..
  have u: "?spent = ?rl0\<lparr>stats := (stats ?rl0)\<lparr>resolve_requests_today := 200,
                                                 resolve_last_reset := Some 0\<rparr>\<rparr>"
    by simp
  have "acquire ''search_global'' None 1 ?ck
          (?rl0\<lparr>stats := (stats ?rl0)\<lparr>resolve_requests_today := 200,
                                        resolve_last_reset := Some 0\<rparr>\<rparr>) =
        Some (True, y\<lparr>stats := (stats y)\<lparr>resolve_requests_today := 200,
                                           resolve_last_reset := Some 0\<rparr>\<rparr>)"
    using acquire_resolve_class_iff_substring
            [where m = "''search_global''" and c = None and p = 1 and ck = ?ck and rl = ?rl0]
          s2 y
    by simp
  then have w2: "acquire ''search_global'' None 1 ?ck ?spent =
        Some (True, y\<lparr>stats := (stats y)\<lparr>resolve_requests_today := 200,
                                           resolve_last_reset := Some 0\<rparr>\<rparr>)"
    by (simp only: u)
  have c5: "check_resolve_limit 5 ?five = (True, ?five)"
    using check_resolve_limit_no_rollover[of ?five 0 5] by (simp add: lim)
  have "\<exists>rl'. acquire ''Resolve_Username'' None 1 ?ck ?five = Some (True, rl')"
    by (simp add: acquire_def s1 c5 admit_def wait_for_global_limit_def add_human_delay_def
          gl Let_def)
  then obtain z where z: "acquire ''Resolve_Username'' None 1 ?ck ?five = Some (True, z)" ..
  have w3: "resolve_requests_today (stats z) = 6 \<and> resolve_last_reset (stats z) = Some 0"
    using acquire_resolve_class_iff_substring
            [where m = "''Resolve_Username''" and c = None and p = 1 and ck = ?ck and rl = ?five]
          s1 z
    by (auto simp: lim)
  from w1 w2 z w3 show ?thesis by simp
qed

section \<open>Failures inside the admission sequence (C3)\<close>

lemma check_resolve_limit_frame:
  "check_resolve_limit dt rl = (ok, rl0) \<Longrightarrow>
   config rl0 = config rl \<and> semaphore rl0 = semaphore rl \<and>
   global_queue rl0 = global_queue rl \<and> chat_queues rl0 = chat_queues rl"
  by (auto simp: check_resolve_limit_def Let_def)

text \<open>
  C3. Let a slot of the semaphore be free when \<open>acquire\<close> is entered. Then \<open>acquire\<close>
  yields a boolean, whatever the method name, chat, priority and clock readings. And
  every exception that a step of the admission sequence raises (the \<open>IndexError\<close> of a
  wait method, the \<open>ZeroDivisionError\<close> of the delay; \<open>admit\<close> returns \<open>Inl e\<close>) becomes
  the decision \<open>False\<close>, the slot being free again: both for a method that is not
  resolve-class and for a resolve-class method that passed the quota check and was
  counted.
\<close>

theorem acquire_converts_failure_to_denial:
  assumes "0 < semaphore rl"
  shows "(\<exists>g rl'. acquire m c p ck rl = Some (g, rl')) \<and>
         (\<forall>e rl2. \<not> str_contains ''resolve'' (lower m) \<and>
                   admit m c p ck (rl\<lparr>semaphore := semaphore rl - 1\<rparr>) = (Inl e, rl2) \<longrightarrow>
                   acquire m c p ck rl = Some (False, rl2\<lparr>semaphore := semaphore rl2 + 1\<rparr>)) \<and>
         (\<forall>e rl0 rl2. str_contains ''resolve'' (lower m) \<and>
                   check_resolve_limit (dt_check ck) rl = (True, rl0) \<and>
                   admit m c p ck
                     (rl0\<lparr>stats := record_resolve_request (dt_resolve ck) (stats rl0),
                          semaphore := semaphore rl0 - 1\<rparr>) = (Inl e, rl2) \<longrightarrow>
                   acquire m c p ck rl = Some (False, rl2\<lparr>semaphore := semaphore rl2 + 1\<rparr>))"
proof (intro conjI allI impI)
  show "\<exists>g rl'. acquire m c p ck rl = Some (g, rl')"
  proof (cases "str_contains ''resolve'' (lower m)")
    case False
    with assms show ?thesis
      by (auto simp: acquire_def split: prod.splits sum.splits)
  next
    case True
    obtain ok rl0 where c: "check_resolve_limit (dt_check ck) rl = (ok, rl0)"
      by (cases "check_resolve_limit (dt_check ck) rl")
    from check_resolve_limit_frame[OF c] assms have "0 < semaphore rl0" by simp
    with True c show ?thesis
      by (auto simp: acquire_def split: prod.splits sum.splits)
  qed
next
  fix e rl2
  assume "\<not> str_contains ''resolve'' (lower m) \<and>
          admit m c p ck (rl\<lparr>semaphore := semaphore rl - 1\<rparr>) = (Inl e, rl2)"
  with assms show "acquire m c p ck rl = Some (False, rl2\<lparr>semaphore := semaphore rl2 + 1\<rparr>)"
    by (simp add: acquire_def)
next
  fix e rl0 rl2
  assume a: "str_contains ''resolve'' (lower m) \<and>
          check_resolve_limit (dt_check ck) rl = (True, rl0) \<and>
          admit m c p ck
            (rl0\<lparr>stats := record_resolve_request (dt_resolve ck) (stats rl0),
                 semaphore := semaphore rl0 - 1\<rparr>) = (Inl e, rl2)"
  then have "0 < semaphore rl0" using check_resolve_limit_frame[of "dt_check ck" rl True rl0] assms
    by simp
  with a show "acquire m c p ck rl = Some (False, rl2\<lparr>semaphore := semaphore rl2 + 1\<rparr>)"
    by (simp add: acquire_def)
qed

theorem acquire_converts_failure_to_denial_witness:
  "admit ''get_me'' None 0
     \<lparr>dt_check = 0, dt_resolve = 0, dt_request = 0, g_now = 0, g_now_c = 0,
      c_now = 0, c_now_c = 0, base_delay = 1 / 10\<rparr>
     \<lparr>config = default_config, stats = init_stats, global_queue = [],
      chat_queues = (\<lambda>c. []), semaphore = 4\<rparr> =
     (Inl ZeroDivisionError,
      \<lparr>config = default_config, stats = record_request 0 init_stats, global_queue = [0],
       chat_queues = (\<lambda>c. []), semaphore = 4\<rparr>) \<and>
   acquire ''get_me'' None 0
     \<lparr>dt_check = 0, dt_resolve = 0, dt_request = 0, g_now = 0, g_now_c = 0,
      c_now = 0, c_now_c = 0, base_delay = 1 / 10\<rparr>
     \<lparr>config = default_config, stats = init_stats, global_queue = [],
      chat_queues = (\<lambda>c. []), semaphore = 5\<rparr> =
     Some (False,
      \<lparr>config = default_config, stats = record_request 0 init_stats, global_queue = [0],
       chat_queues = (\<lambda>c. []), semaphore = 5\<rparr>)"
proof -
  let ?ck = "\<lparr>dt_check = 0, dt_resolve = 0, dt_request = 0, g_now = 0, g_now_c = 0,
      c_now = 0, c_now_c = 0, base_delay = 1 / 10\<rparr>"
  let ?rl = "\<lparr>config = default_config, stats = init_stats, global_queue = [],
      chat_queues = (\<lambda>c. []), semaphore = 5\<rparr>"
  let ?rl2 = "\<lparr>config = default_config, stats = record_request 0 init_stats, global_queue = [0],
       chat_queues = (\<lambda>c. []), semaphore = 4\<rparr>"
  have gl: "global_limit default_config = 30" by (simp add: default_config_def)
  have s: "\<not> str_contains ''resolve'' (lower ''get_me'')"
    by (simp add: lower_def lower_char_def)
  have a: "admit ''get_me'' None 0 ?ck (?rl\<lparr>semaphore := semaphore ?rl - 1\<rparr>) =
             (Inl ZeroDivisionError, ?rl2)"
    by (simp add: admit_def wait_for_global_limit_def add_human_delay_def record_window_def
          gl Let_def)
  have h: "0 < semaphore ?rl" by simp
  from acquire_converts_failure_to_denial[OF h, of "''get_me''" None 0 ?ck] s a
  have "acquire ''get_me'' None 0 ?ck ?rl = Some (False, ?rl2\<lparr>semaphore := semaphore ?rl2 + 1\<rparr>)"
    by blast
  with a show ?thesis by simp
qed

section \<open>Order of the window queues (C9)\<close>

lemma queues_ordered_mono: "queues_ordered T rl \<Longrightarrow> T \<le> T' \<Longrightarrow> queues_ordered T' rl"
  unfolding queues_ordered_def by (meson order_trans)

lemma queues_ordered_cong:
  "global_queue rl' = global_queue rl \<Longrightarrow> chat_queues rl' = chat_queues rl \<Longrightarrow>
   queues_ordered T rl' = queues_ordered T rl"
  by (simp add: queues_ordered_def)

lemma window_step_ordered:
  assumes "sorted q" and "\<forall>t \<in> set q. t \<le> T" and "T \<le> now"
    and "q' = cleanup_old_requests now_c w q \<or> q' = cleanup_old_requests now_c w q @ [now]"
  shows "sorted q' \<and> (\<forall>t \<in> set q'. t \<le> now)"
proof -
  let ?c = "cleanup_old_requests now_c w q"
  have s: "sorted ?c" using assms(1) by (rule cleanup_sorted)
  have b: "\<forall>t \<in> set ?c. t \<le> now"
    using cleanup_subset[of now_c w q] assms(2) assms(3) by fastforce
  from s b have "sorted (?c @ [now])" by (simp add: sorted_append)
  with s b assms(4) show ?thesis by auto
qed

lemma wait_for_global_limit_ordered:
  assumes "wait_for_global_limit now now_c rl = (r, rl')"
    and "queues_ordered T rl" and "T \<le> now"
  shows "queues_ordered now rl'"
proof -
  have g: "sorted (global_queue rl') \<and> (\<forall>t \<in> set (global_queue rl'). t \<le> now)"
    using window_step_ordered[of "global_queue rl" T now "global_queue rl'" now_c 60]
      wait_for_global_limit_queue[OF assms(1)] assms(2) assms(3)
    by (simp add: queues_ordered_def)
  have "chat_queues rl' = chat_queues rl" using wait_for_global_limit_frame[OF assms(1)] by simp
  then have "\<forall>c. sorted (chat_queues rl' c) \<and> (\<forall>t \<in> set (chat_queues rl' c). t \<le> now)"
    using assms(2) assms(3) unfolding queues_ordered_def by (metis order_trans)
  with g show ?thesis by (simp add: queues_ordered_def)
qed

lemma wait_for_chat_limit_ordered:
  assumes "wait_for_chat_limit c g now now_c rl = (r, rl')"
    and "queues_ordered T rl" and "T \<le> now"
  shows "queues_ordered now rl'"
proof -
  have gq: "global_queue rl' = global_queue rl" using wait_for_chat_limit_frame[OF assms(1)] by simp
  have g: "sorted (global_queue rl') \<and> (\<forall>t \<in> set (global_queue rl'). t \<le> now)"
    using gq assms(2) assms(3) unfolding queues_ordered_def by (metis order_trans)
  have own: "sorted (chat_queues rl' c) \<and> (\<forall>t \<in> set (chat_queues rl' c). t \<le> now)"
    using window_step_ordered[of "chat_queues rl c" T now "chat_queues rl' c" now_c
            "if g then 60 else 1"]
      wait_for_chat_limit_queue[OF assms(1)] assms(2) assms(3)
    by (simp add: queues_ordered_def)
  have "sorted (chat_queues rl' d) \<and> (\<forall>t \<in> set (chat_queues rl' d). t \<le> now)" for d
  proof (cases "d = c")
    case True
    with own show ?thesis by simp
  next
    case False
    then have "chat_queues rl' d = chat_queues rl d"
      using wait_for_chat_limit_queue[OF assms(1)] by simp
    then show ?thesis using assms(2) assms(3) unfolding queues_ordered_def by (metis order_trans)
  qed
  with g show ?thesis by (simp add: queues_ordered_def)
qed

lemma admit_ordered:
  assumes "admit m c p ck rl = (r, rl')"
    and "queues_ordered T rl" and "T \<le> g_now ck" and "g_now ck \<le> c_now ck"
  shows "queues_ordered (c_now ck) rl'"
proof -
  let ?rl1 = "rl\<lparr>stats := record_request (dt_request ck) (stats rl)\<rparr>"
  obtain rg rl2 where g: "wait_for_global_limit (g_now ck) (g_now_c ck) ?rl1 = (rg, rl2)"
    by (cases "wait_for_global_limit (g_now ck) (g_now_c ck) ?rl1")
  let ?chat = "case c of
                 None \<Rightarrow> (Inr 0, rl2)
               | Some x \<Rightarrow>
                   if x = [] then (Inr 0, rl2)
                   else wait_for_chat_limit x (determine_chat_type c m) (c_now ck) (c_now_c ck) rl2"
  obtain rc rl3 where ch: "?chat = (rc, rl3)" by (cases ?chat)
  have "queues_ordered T ?rl1" using assms(2) by (simp add: queues_ordered_def)
  then have o2: "queues_ordered (g_now ck) rl2"
    using wait_for_global_limit_ordered[OF g] assms(3) by blast
  then have o2': "queues_ordered (c_now ck) rl2"
    using assms(4) by (rule queues_ordered_mono)
  have o3: "queues_ordered (c_now ck) rl3"
  proof (cases "\<exists>x. c = Some x \<and> x \<noteq> []")
    case True
    then obtain x where x: "c = Some x" "x \<noteq> []" by blast
    with ch have "wait_for_chat_limit x (determine_chat_type c m) (c_now ck) (c_now_c ck) rl2 = (rc, rl3)"
      by simp
    from wait_for_chat_limit_ordered[OF this o2 assms(4)] show ?thesis .
  next
    case False
    with ch have "rl3 = rl2" by (cases c) (auto split: if_splits)
    with o2' show ?thesis by simp
  qed
  have "rl' = rl2 \<or> rl' = rl3"
    using assms(1) g ch by (auto simp: admit_def Let_def split: sum.splits)
  with o2' o3 show ?thesis by auto
qed

lemma acquire_ordered:
  assumes "acquire m c p ck rl = Some (g, rl')"
    and "queues_ordered T rl" and "T \<le> g_now ck" and "g_now ck \<le> c_now ck"
  shows "queues_ordered (c_now ck) rl'"
proof -
  have le: "T \<le> c_now ck" using assms(3) assms(4) by simp
  let ?pre = "if str_contains ''resolve'' (lower m)
            then (case check_resolve_limit (dt_check ck) rl of
                    (ok, rl0) \<Rightarrow>
                      if \<not> ok then (False, rl0)
                      else (True, rl0\<lparr>stats := record_resolve_request (dt_resolve ck) (stats rl0)\<rparr>))
            else (True, rl)"
  obtain ok rl1 where pre: "?pre = (ok, rl1)" by (cases ?pre)
  have "global_queue rl1 = global_queue rl \<and> chat_queues rl1 = chat_queues rl"
    using pre by (auto simp: check_resolve_limit_def Let_def split: if_splits prod.splits)
  then have o1: "queues_ordered T rl1" using assms(2) by (simp add: queues_ordered_def)
  show ?thesis
  proof (cases ok)
    case False
    with assms(1) pre have "rl' = rl1" by (simp add: acquire_def)
    with o1 le show ?thesis using queues_ordered_mono by blast
  next
    case True
    let ?rl1 = "rl1\<lparr>semaphore := semaphore rl1 - 1\<rparr>"
    obtain r rl2 where a: "admit m c p ck ?rl1 = (r, rl2)" by (cases "admit m c p ck ?rl1")
    have "queues_ordered T ?rl1" using o1 by (simp add: queues_ordered_def)
    from admit_ordered[OF a this assms(3) assms(4)] have o2: "queues_ordered (c_now ck) rl2" .
    from assms(1) pre True a have "rl' = rl2 \<or> rl' = rl2\<lparr>semaphore := semaphore rl2 + 1\<rparr>"
      by (auto simp: acquire_def split: if_splits sum.splits)
    with o2 show ?thesis by (auto simp: queues_ordered_def)
  qed
qed

lemma run_acquires_ordered:
  assumes "run_acquires calls rl = Some rl'"
    and "queues_ordered T rl" and "clocks_monotone T calls"
  shows "\<exists>T'. queues_ordered T' rl'"
  using assms
proof (induction calls arbitrary: rl T)
  case Nil
  then show ?case by auto
next
  case (Cons x xs)
  from Cons.prems(1) obtain g rl1 where
    a: "acquire (c_method x) (c_chat x) (c_priority x) (c_clock x) rl = Some (g, rl1)"
    and r: "run_acquires xs (acquire_exit g rl1) = Some rl'"
    by (auto split: option.splits)
  from Cons.prems(3) have m: "T \<le> g_now (c_clock x)" "g_now (c_clock x) \<le> c_now (c_clock x)"
    "clocks_monotone (c_now (c_clock x)) xs" by simp_all
  from acquire_ordered[OF a Cons.prems(2) m(1) m(2)]
  have "queues_ordered (c_now (c_clock x)) rl1" .
  then have "queues_ordered (c_now (c_clock x)) (acquire_exit g rl1)"
    by (simp add: queues_ordered_def acquire_exit_def)
  from Cons.IH[OF r this m(3)] show ?case .
qed

text \<open>
  C9. Take a limiter as \<open>RateLimiter.__init__\<close> builds it and any sequence of
  \<open>acquire\<close> calls on it, whose clock readings do not run backwards. In the state
  after these calls the global queue and the queue of every chat hold their timestamps
  in non-decreasing order. (Every state between two calls is the final state of a
  shorter sequence.)
\<close>

theorem window_queues_sorted:
  assumes "new_RateLimiter cfg = Inr rl0"
    and "clocks_monotone T calls"
    and "run_acquires calls rl0 = Some rl"
  shows "sorted (global_queue rl) \<and> (\<forall>c. sorted (chat_queues rl c))"
proof -
  have "queues_ordered T rl0"
    using assms(1) by (auto simp: new_RateLimiter_def queues_ordered_def split: if_splits)
  from run_acquires_ordered[OF assms(3) this assms(2)] show ?thesis
    by (auto simp: queues_ordered_def)
qed


theorem window_queues_sorted_witness:
  "new_RateLimiter default_config =
     Inr \<lparr>config = default_config, stats = init_stats, global_queue = [],
          chat_queues = (\<lambda>c. []), semaphore = 5\<rparr> \<and>
   clocks_monotone 0
     [\<lparr>c_method = ''send_message'', c_chat = Some ''42'', c_priority = 5,
       c_clock = \<lparr>dt_check = 0, dt_resolve = 0, dt_request = 0, g_now = 0, g_now_c = 0,
                  c_now = 1, c_now_c = 1, base_delay = 1 / 10\<rparr>\<rparr>,
      \<lparr>c_method = ''send_message'', c_chat = Some ''42'', c_priority = 5,
       c_clock = \<lparr>dt_check = 0, dt_resolve = 0, dt_request = 0, g_now = 1, g_now_c = 1,
                  c_now = 1, c_now_c = 1, base_delay = 1 / 10\<rparr>\<rparr>] \<and>
   (case run_acquires
     [\<lparr>c_method = ''send_message'', c_chat = Some ''42'', c_priority = 5,
       c_clock = \<lparr>dt_check = 0, dt_resolve = 0, dt_request = 0, g_now = 0, g_now_c = 0,
                  c_now = 1, c_now_c = 1, base_delay = 1 / 10\<rparr>\<rparr>,
      \<lparr>c_method = ''send_message'', c_chat = Some ''42'', c_priority = 5,
       c_clock = \<lparr>dt_check = 0, dt_resolve = 0, dt_request = 0, g_now = 1, g_now_c = 1,
                  c_now = 1, c_now_c = 1, base_delay = 1 / 10\<rparr>\<rparr>]
     \<lparr>config = default_config, stats = init_stats, global_queue = [],
      chat_queues = (\<lambda>c. []), semaphore = 5\<rparr> of
      None \<Rightarrow> False
    | Some rl \<Rightarrow> global_queue rl = [0, 1] \<and> chat_queues rl ''42'' = [1, 1] \<and>
                 sorted (global_queue rl) \<and> sorted (chat_queues rl ''42''))"
proof -
  let ?rl0 = "\<lparr>config = default_config, stats = init_stats, global_queue = [],
      chat_queues = (\<lambda>c. []), semaphore = 5\<rparr>"
  let ?calls = "[\<lparr>c_method = ''send_message'', c_chat = Some ''42'', c_priority = 5,
       c_clock = \<lparr>dt_check = 0, dt_resolve = 0, dt_request = 0, g_now = 0, g_now_c = 0,
                  c_now = 1, c_now_c = 1, base_delay = 1 / 10\<rparr>\<rparr>,
      \<lparr>c_method = ''send_message'', c_chat = Some ''42'', c_priority = 5,
       c_clock = \<lparr>dt_check = 0, dt_resolve = 0, dt_request = 0, g_now = 1, g_now_c = 1,
                  c_now = 1, c_now_c = 1, base_delay = 1 / 10\<rparr>\<rparr>]"
  have new: "new_RateLimiter default_config = Inr ?rl0"
    by (simp add: new_RateLimiter_def default_config_def)
  have mono: "clocks_monotone 0 ?calls" by simp
  have s: "\<not> str_contains ''resolve'' (lower ''send_message'')"
    by (simp add: lower_def lower_char_def)
  have g: "\<not> determine_chat_type (Some ''42'') ''send_message''"
    by (simp add: determine_chat_type_def group_methods_def lower_def lower_char_def)
  have lim: "global_limit default_config = 30" "chat_limit default_config = 1"
    by (simp_all add: default_config_def)
  have "\<exists>rl. run_acquires ?calls ?rl0 = Some rl \<and> global_queue rl = [0, 1] \<and>
           chat_queues rl ''42'' = [1, 1]"
    by (simp add: acquire_def s g lim admit_def wait_for_global_limit_def wait_for_chat_limit_def
          add_human_delay_def record_window_def acquire_exit_def Let_def)
  then obtain rl where run: "run_acquires ?calls ?rl0 = Some rl"
    and q: "global_queue rl = [0, 1]" "chat_queues rl ''42'' = [1, 1]" by blast
  from window_queues_sorted[OF new mono run]
  have "sorted (global_queue rl) \<and> sorted (chat_queues rl ''42'')" by simp
  with new mono run q show ?thesis by simp
qed

section \<open>Filling a window past its ceiling (C1)\<close>

text \<open>
  C1, at the failing input. Both wait methods read the clock once, before the sleep,
  and append that reading after it. Take a new limiter with the default configuration
  (one call per second and chat) and the chat \<open>42\<close>. A call entering at 0 is
  recorded without a wait. A second call entering at 1/10 finds the window full and
  sleeps 9/10, so it is released at 1; the timestamp it records is 1/10, which is not
  at least 0 + 1. A third call entering at 6/5 then finds both entries expired and is
  released at once, 1/5 of a second after the second call was.
\<close>

theorem window_records_reading_taken_before_sleep:
  "chat_limit (config (projr (new_RateLimiter default_config))) = 1 \<and>
   fst (run_chat ''42'' False [(0, 0), (1 / 10, 1 / 10)]
          (projr (new_RateLimiter default_config))) = [Inr 0, Inr (9 / 10)] \<and>
   chat_queues (snd (run_chat ''42'' False [(0, 0), (1 / 10, 1 / 10)]
          (projr (new_RateLimiter default_config)))) ''42'' = [0, 1 / 10] \<and>
   \<not> (chat_queues (snd (run_chat ''42'' False [(0, 0), (1 / 10, 1 / 10)]
          (projr (new_RateLimiter default_config)))) ''42'' ! 0 + 1
        \<le> chat_queues (snd (run_chat ''42'' False [(0, 0), (1 / 10, 1 / 10)]
          (projr (new_RateLimiter default_config)))) ''42'' ! 1) \<and>
   fst (run_chat ''42'' False [(0, 0), (1 / 10, 1 / 10), (6 / 5, 6 / 5)]
          (projr (new_RateLimiter default_config))) = [Inr 0, Inr (9 / 10), Inr 0] \<and>
   chat_queues (snd (run_chat ''42'' False [(0, 0), (1 / 10, 1 / 10), (6 / 5, 6 / 5)]
          (projr (new_RateLimiter default_config)))) ''42'' = [6 / 5]"
  by (simp add: new_RateLimiter_def wait_for_chat_limit_def record_window_def
        default_config_def Let_def)

text \<open>
  The global window behaves in the same way. With a ceiling of one call per minute, calls
  entering at 0, 10 and 61: the second sleeps 50 (released at 60) and records 10; the
  third sleeps 9 only and is released at 70, ten seconds after the second.
\<close>

lemma global_window_records_reading_taken_before_sleep:
  "fst (run_global [(0, 0), (10, 10), (61, 61)]
          (projr (new_RateLimiter (default_config\<lparr>global_limit := 1\<rparr>)))) =
     [Inr 0, Inr 50, Inr 9] \<and>
   global_queue (snd (run_global [(0, 0), (10, 10), (61, 61)]
          (projr (new_RateLimiter (default_config\<lparr>global_limit := 1\<rparr>))))) = [10, 61]"
  by (simp add: new_RateLimiter_def wait_for_global_limit_def record_window_def
        default_config_def Let_def)

section \<open>The rates of the stats tracker (C6)\<close>














end
